theory Spec2Isabelle
  imports Complex_Main
begin

section \<open>Injection modes (utils.py, class InjectMode)\<close>

datatype InjectMode = ACTION_NOISE | OBS_NOISE

definition is_noise :: "InjectMode \<Rightarrow> bool" where
  "is_noise m = (if m = OBS_NOISE \<or> m = ACTION_NOISE then True else False)"

definition is_obs :: "InjectMode \<Rightarrow> bool" where
  "is_obs m = (if m = OBS_NOISE then True else False)"

definition is_action :: "InjectMode \<Rightarrow> bool" where
  "is_action m = (if m = ACTION_NOISE then True else False)"

section \<open>Errors, arrays and the store\<close>

text \<open>
  The exceptions the modelled code can raise: a failed \<^verbatim>\<open>assert\<close>, an index out of
  range, a call that misses a required argument, and numpy's reduction of an empty
  sequence.
\<close>

datatype error = AssertionError | IndexError | TypeError | ValueError

text \<open>
  The entries of an observation or action tuple are numpy arrays (the code reads their
  \<^verbatim>\<open>.shape\<close>). An array is a mutable object: the tuple holds a reference to it, and
  \<^verbatim>\<open>a += noise\<close> on an array updates the object in place. So a tuple is a list of
  addresses and the arrays live in a store. An array is modelled by the list of its
  elements (its shape is the length of that list) and a floating-point number by a real.
  The store also carries the state of numpy's global random generator, as the stream of
  unit samples it is going to produce.
\<close>

type_synonym addr = nat
type_synonym ndarray = "real list"
type_synonym pytuple = "addr list"

record world =
  arrays :: "addr \<Rightarrow> ndarray"
  next_addr :: addr
  rng :: "nat \<Rightarrow> real"

text \<open>Python indexing of a sequence of length \<open>n\<close>: negative indices count from the end.\<close>

definition py_index :: "nat \<Rightarrow> int \<Rightarrow> nat option" where
  "py_index n k =
     (if 0 \<le> k \<and> k < int n then Some (nat k)
      else if - int n \<le> k \<and> k < 0 then Some (nat (int n + k))
      else None)"

text \<open>
  \<^verbatim>\<open>np.random.uniform(low, high, size=k)\<close>: each element is
  \<open>low + (high - low) * u\<close> for the next unit sample \<open>u\<close> of the generator.
\<close>

definition uniform :: "real \<Rightarrow> real \<Rightarrow> nat \<Rightarrow> 'x world_scheme \<Rightarrow> ndarray \<times> 'x world_scheme" where
  "uniform low high k w =
     (map (\<lambda>j. low + (high - low) * rng w j) [0..<k],
      w\<lparr>rng := (\<lambda>j. rng w (j + k))\<rparr>)"

text \<open>\<^verbatim>\<open>a += noise\<close> on the array at address \<open>a\<close>: the elementwise sum, stored in place.\<close>

definition iadd :: "addr \<Rightarrow> ndarray \<Rightarrow> 'x world_scheme \<Rightarrow> 'x world_scheme" where
  "iadd a noise w = w\<lparr>arrays := (arrays w)(a := map2 (+) (arrays w a) noise)\<rparr>"

text \<open>\<^verbatim>\<open>np.clip(x, lo, hi)\<close> is \<open>minimum(maximum(x, lo), hi)\<close>, elementwise, in a new array.\<close>

definition clip :: "real \<Rightarrow> real \<Rightarrow> real \<Rightarrow> real" where
  "clip x lo hi = min (max x lo) hi"

definition new_array :: "ndarray \<Rightarrow> 'x world_scheme \<Rightarrow> addr \<times> 'x world_scheme" where
  "new_array v w =
     (next_addr w, w\<lparr>arrays := (arrays w)(next_addr w := v), next_addr := Suc (next_addr w)\<rparr>)"

definition np_clip :: "addr \<Rightarrow> real \<Rightarrow> real \<Rightarrow> 'x world_scheme \<Rightarrow> addr \<times> 'x world_scheme" where
  "np_clip a lo hi w = new_array (map (\<lambda>x. clip x lo hi) (arrays w a)) w"

section \<open>The injector (utils.py, class EvaluationUtils)\<close>

text \<open>An agent of the environment, with its control range \<^verbatim>\<open>u_range\<close>.\<close>

record agent =
  u_range :: real

text \<open>
  The vectorised environment, with one sub-environment. \<^verbatim>\<open>env.env.agents\<close> is
  the list of its agents; resetting, stepping and rendering belong to the simulator and
  are parameters of the model, each a function on the world. \<open>vector_reset\<close> and
  \<open>vector_step\<close> give element 0 of the lists the simulator returns. Exceptions of the
  simulator and of the policy are not modelled.
\<close>

type_synonym frame = nat

record 'x vector_env =
  agents :: "agent list"
  vector_reset :: "'x world_scheme \<Rightarrow> pytuple \<times> 'x world_scheme"
  vector_step :: "pytuple \<Rightarrow> 'x world_scheme \<Rightarrow> (pytuple \<times> real \<times> bool) \<times> 'x world_scheme"
  try_render_at :: "'x world_scheme \<Rightarrow> frame \<times> 'x world_scheme"

text \<open>
  The loop of \<^verbatim>\<open>__inject_noise_in_action\<close> over the target indices, in the
  iteration order of the set: the noise is drawn with the shape of the entry, added in
  place, and the entry of the new list is replaced by the clipped array.
\<close>

fun inject_action_loop ::
  "agent list \<Rightarrow> real \<Rightarrow> int list \<Rightarrow> pytuple \<Rightarrow> 'x world_scheme \<Rightarrow> (error + pytuple) \<times> 'x world_scheme" where
  "inject_action_loop ags noise_delta [] agent_actions_new w = (Inr agent_actions_new, w)"
| "inject_action_loop ags noise_delta (agent_index # rest) agent_actions_new w =
     (case py_index (length agent_actions_new) agent_index of
        None \<Rightarrow> (Inl IndexError, w)
      | Some p \<Rightarrow>
          (case uniform (- noise_delta) noise_delta
                  (length (arrays w (agent_actions_new ! p))) w of
             (noise, w1) \<Rightarrow>
               (let w2 = iadd (agent_actions_new ! p) noise w1 in
                case py_index (length ags) agent_index of
                  None \<Rightarrow> (Inl IndexError, w2)
                | Some q \<Rightarrow>
                    (case np_clip (agent_actions_new ! p)
                            (- u_range (ags ! q)) (u_range (ags ! q)) w2 of
                       (c, w3) \<Rightarrow>
                         inject_action_loop ags noise_delta rest
                           (agent_actions_new[p := c]) w3))))"

definition inject_noise_in_action ::
  "pytuple \<Rightarrow> int list \<Rightarrow> real \<Rightarrow> 'x vector_env \<Rightarrow> 'x world_scheme \<Rightarrow> (error + pytuple) \<times> 'x world_scheme" where
  "inject_noise_in_action agent_actions agent_indices noise_delta env w =
     (if \<not> length agent_indices \<le> length agent_actions then (Inl AssertionError, w)
      else inject_action_loop (agents env) noise_delta agent_indices agent_actions w)"

fun inject_observation_loop ::
  "real \<Rightarrow> int list \<Rightarrow> pytuple \<Rightarrow> 'x world_scheme \<Rightarrow> (error + pytuple) \<times> 'x world_scheme" where
  "inject_observation_loop noise_delta [] observations_new w = (Inr observations_new, w)"
| "inject_observation_loop noise_delta (agent_index # rest) observations_new w =
     (case py_index (length observations_new) agent_index of
        None \<Rightarrow> (Inl IndexError, w)
      | Some p \<Rightarrow>
          (case uniform (- noise_delta) noise_delta
                  (length (arrays w (observations_new ! p))) w of
             (noise, w1) \<Rightarrow>
               inject_observation_loop noise_delta rest observations_new
                 (iadd (observations_new ! p) noise w1)))"

definition inject_noise_in_observation ::
  "pytuple \<Rightarrow> int list \<Rightarrow> real \<Rightarrow> 'x world_scheme \<Rightarrow> (error + pytuple) \<times> 'x world_scheme" where
  "inject_noise_in_observation observations agent_indices noise_delta w =
     (if \<not> length agent_indices \<le> length observations then (Inl AssertionError, w)
      else inject_observation_loop noise_delta agent_indices observations w)"

text \<open>
  \<^verbatim>\<open>get_inject_function\<close> returns the closure \<^verbatim>\<open>inject_function\<close>; the model is
  the closure applied to its argument \<open>x\<close>.
\<close>

definition get_inject_function ::
  "InjectMode \<Rightarrow> real \<Rightarrow> int list \<Rightarrow> 'x vector_env \<Rightarrow> pytuple \<Rightarrow> 'x world_scheme
     \<Rightarrow> (error + pytuple) \<times> 'x world_scheme" where
  "get_inject_function inject_mode noise_delta agents_to_inject env x w =
     (if inject_mode = ACTION_NOISE then
        inject_noise_in_action x agents_to_inject noise_delta env w
      else if inject_mode = OBS_NOISE then
        inject_noise_in_observation x agents_to_inject noise_delta w
      else (Inl AssertionError, w))"

section \<open>The episode roller (utils.py, EvaluationUtils.rollout_episodes)\<close>

text \<open>
  The restored policy: \<^verbatim>\<open>trainer.compute_single_action\<close> belongs to the training
  framework and is a parameter of the model; \<open>max_steps\<close> is
  \<^verbatim>\<open>trainer.config["env_config"]["max_steps"]\<close>.
\<close>

record 'x MultiPPOTrainer =
  compute_single_action :: "pytuple \<Rightarrow> 'x world_scheme \<Rightarrow> pytuple \<times> 'x world_scheme"
  max_steps :: int

text \<open>The parameters of \<^verbatim>\<open>rollout_episodes\<close>, once bound.\<close>

record 'x rollout_args =
  n_episodes :: nat
  render :: bool
  get_obs :: bool
  get_actions :: bool
  trainer :: "'x MultiPPOTrainer option"
  action_callback :: "(pytuple \<Rightarrow> 'x world_scheme \<Rightarrow> pytuple \<times> 'x world_scheme) option"
  env :: "'x vector_env"
  inject :: bool
  inject_mode :: InjectMode
  agents_to_inject :: "int list"
  noise_delta :: real

text \<open>
  The variables of one episode; \<open>i_count\<close> is the counter \<^verbatim>\<open>i\<close> and \<open>done_flag\<close> the
  flag \<^verbatim>\<open>done\<close>.
\<close>

record episode_state =
  frame_list :: "frame list"
  observations_this_episode :: "pytuple list"
  actions_this_episode :: "pytuple list"
  reward_sum :: real
  observation :: pytuple
  i_count :: nat
  done_flag :: bool

text \<open>
  The action is the trainer's when there is a trainer and the callback's otherwise;
  calling a callback that is \<^verbatim>\<open>None\<close> raises TypeError.
\<close>

definition compute_action ::
  "'x rollout_args \<Rightarrow> pytuple \<Rightarrow> 'x world_scheme \<Rightarrow> (error + pytuple) \<times> 'x world_scheme" where
  "compute_action a ob w =
     (case trainer a of
        Some t \<Rightarrow> (case compute_single_action t ob w of (act, w1) \<Rightarrow> (Inr act, w1))
      | None \<Rightarrow>
          (case action_callback a of
             Some cb \<Rightarrow> (case cb ob w of (act, w1) \<Rightarrow> (Inr act, w1))
           | None \<Rightarrow> (Inl TypeError, w)))"

text \<open>The body of \<^verbatim>\<open>while not done\<close>.\<close>

definition episode_body ::
  "'x rollout_args \<Rightarrow> episode_state \<Rightarrow> 'x world_scheme \<Rightarrow> (error + episode_state) \<times> 'x world_scheme" where
  "episode_body a s w =
     (let s1 = s\<lparr>i_count := i_count s + 1\<rparr> in
      case (if inject a \<and> is_obs (inject_mode a)
            then get_inject_function (inject_mode a) (noise_delta a) (agents_to_inject a)
                   (env a) (observation s1) w
            else (Inr (observation s1), w)) of
        (Inl e, w1) \<Rightarrow> (Inl e, w1)
      | (Inr ob, w1) \<Rightarrow>
          (let s2 = s1\<lparr>observation := ob\<rparr>;
               s3 = (if get_obs a
                     then s2\<lparr>observations_this_episode :=
                            observations_this_episode s2 @ [observation s2]\<rparr>
                     else s2) in
           case compute_action a (observation s3) w1 of
             (Inl e, w2) \<Rightarrow> (Inl e, w2)
           | (Inr act, w2) \<Rightarrow>
               (case (if inject a \<and> is_action (inject_mode a)
                      then get_inject_function (inject_mode a) (noise_delta a)
                             (agents_to_inject a) (env a) act w2
                      else (Inr act, w2)) of
                  (Inl e, w3) \<Rightarrow> (Inl e, w3)
                | (Inr act', w3) \<Rightarrow>
                    (let s4 = (if get_actions a
                               then s3\<lparr>actions_this_episode :=
                                      actions_this_episode s3 @ [act']\<rparr>
                               else s3) in
                     case vector_step (env a) act' w3 of
                       ((ob', reward, d), w4) \<Rightarrow>
                         (let s5 = s4\<lparr>observation := ob', done_flag := d,
                                       reward_sum := reward_sum s4 + reward\<rparr> in
                          if render a
                          then (case try_render_at (env a) w4 of
                                  (f, w5) \<Rightarrow> (Inr (s5\<lparr>frame_list := frame_list s5 @ [f]\<rparr>), w5))
                          else (Inr s5, w4))))))"

text \<open>
  The loop \<^verbatim>\<open>while not done\<close>. It runs as long as the environment does not report
  the end of the episode, so it is a partial function: \<open>None\<close> is the loop that never
  ends. An exception leaves the loop with the world as it is then.
\<close>

partial_function (option) episode_while ::
  "'x rollout_args \<Rightarrow> episode_state \<Rightarrow> 'x world_scheme
     \<Rightarrow> ((error + episode_state) \<times> 'x world_scheme) option" where
  "episode_while a s w =
     (if done_flag s then Some (Inr s, w)
      else (case episode_body a s w of
              (Inl e, w1) \<Rightarrow> Some (Inl e, w1)
            | (Inr s1, w1) \<Rightarrow> episode_while a s1 w1))"

text \<open>
  The loop that ends after exactly \<open>k\<close> turns: the state and the world in which
  \<^verbatim>\<open>while not done\<close> ends when the environment reports the end of the episode at
  its \<open>k\<close>-th step and no turn raises. Every turn steps the environment once, so \<open>k\<close>
  is the number of environment steps of the episode.
\<close>

fun episode_steps ::
  "nat \<Rightarrow> 'x rollout_args \<Rightarrow> episode_state \<Rightarrow> 'x world_scheme
     \<Rightarrow> (episode_state \<times> 'x world_scheme) option" where
  "episode_steps 0 a s w = (if done_flag s then Some (s, w) else None)"
| "episode_steps (Suc k) a s w =
     (if done_flag s then None
      else (case episode_body a s w of
              (Inl e, w1) \<Rightarrow> None
            | (Inr s1, w1) \<Rightarrow> episode_steps k a s1 w1))"

text \<open>The start of an episode: the variables are initialised and the environment reset.\<close>

definition episode_init :: "'x rollout_args \<Rightarrow> 'x world_scheme \<Rightarrow> episode_state \<times> 'x world_scheme" where
  "episode_init a w =
     (case vector_reset (env a) w of
        (ob, w1) \<Rightarrow>
          (let s = \<lparr>frame_list = [], observations_this_episode = [],
                    actions_this_episode = [], reward_sum = 0, observation = ob,
                    i_count = 0, done_flag = False\<rparr> in
           if render a
           then (case try_render_at (env a) w1 of (f, w2) \<Rightarrow> (s\<lparr>frame_list := [f]\<rparr>, w2))
           else (s, w1)))"

text \<open>
  The variables of \<^verbatim>\<open>rollout_episodes\<close> that outlive an episode.
  \<open>best_reward = None\<close> is \<^verbatim>\<open>float("-inf")\<close>.
\<close>

record rollout_acc =
  best_reward :: "real option"
  best_gif :: "frame list option"
  rewards :: "real list"
  observations :: "pytuple list list"
  actions :: "pytuple list list"

definition episode_end :: "'x rollout_args \<Rightarrow> rollout_acc \<Rightarrow> episode_state \<Rightarrow> rollout_acc" where
  "episode_end a acc s =
     (let acc1 = acc\<lparr>rewards := rewards acc @ [reward_sum s]\<rparr>;
          acc2 = (if (case best_reward acc1 of None \<Rightarrow> True | Some b \<Rightarrow> b < reward_sum s)
                  then acc1\<lparr>best_reward := Some (reward_sum s),
                            best_gif := Some (frame_list s)\<rparr>
                  else acc1);
          acc3 = (if get_obs a
                  then acc2\<lparr>observations := observations acc2 @ [observations_this_episode s]\<rparr>
                  else acc2)
      in if get_actions a
         then acc3\<lparr>actions := actions acc3 @ [actions_this_episode s]\<rparr>
         else acc3)"

text \<open>\<^verbatim>\<open>for j in range(n_episodes)\<close>, by the number of episodes still to run.\<close>

fun episodes_for ::
  "nat \<Rightarrow> 'x rollout_args \<Rightarrow> rollout_acc \<Rightarrow> 'x world_scheme
     \<Rightarrow> ((error + rollout_acc) \<times> 'x world_scheme) option" where
  "episodes_for 0 a acc w = Some (Inr acc, w)"
| "episodes_for (Suc n) a acc w =
     (case episode_init a w of
        (s0, w0) \<Rightarrow>
          (case episode_while a s0 w0 of
             None \<Rightarrow> None
           | Some (Inl e, w1) \<Rightarrow> Some (Inl e, w1)
           | Some (Inr s, w1) \<Rightarrow> episodes_for n a (episode_end a acc s) w1))"

text \<open>
  \<^verbatim>\<open>rollout_episodes\<close>: the assertion that exactly one of trainer and callback is
  given, the episodes, the summary line (\<^verbatim>\<open>np.max\<close> of an empty list raises
  ValueError) and the result
  \<open>(rewards, best_gif, observations, actions)\<close>, the last three \<^verbatim>\<open>None\<close> when not
  asked for. The lines it prints are left out.
\<close>

type_synonym rollout_result =
  "real list \<times> frame list option \<times> pytuple list list option \<times> pytuple list list option"

definition rollout_episodes ::
  "'x rollout_args \<Rightarrow> 'x world_scheme \<Rightarrow> ((error + rollout_result) \<times> 'x world_scheme) option" where
  "rollout_episodes a w =
     (if \<not> ((trainer a = None) \<noteq> (action_callback a = None)) then Some (Inl AssertionError, w)
      else
        (case episodes_for (n_episodes a) a
                \<lparr>best_reward = None, best_gif = None, rewards = [], observations = [],
                  actions = []\<rparr> w of
           None \<Rightarrow> None
         | Some (Inl e, w1) \<Rightarrow> Some (Inl e, w1)
         | Some (Inr acc, w1) \<Rightarrow>
             (if rewards acc = [] then Some (Inl ValueError, w1)
              else Some (Inr (rewards acc,
                              (if render a then best_gif acc else None),
                              (if get_obs a then Some (observations acc) else None),
                              (if get_actions a then Some (actions acc) else None)), w1))))"

text \<open>
  A call of \<^verbatim>\<open>rollout_episodes\<close> by keywords. The function declares its eleven
  parameters without a default, so a call that gives no \<^verbatim>\<open>action_callback\<close> raises
  TypeError before the body runs. The keyword is \<open>None\<close> when the call does not give
  it, and \<open>Some v\<close> when it gives the value \<open>v\<close> (which may be Python's \<^verbatim>\<open>None\<close>).
\<close>

definition rollout_episodes_call ::
  "nat \<Rightarrow> bool \<Rightarrow> bool \<Rightarrow> bool \<Rightarrow> 'x MultiPPOTrainer option
     \<Rightarrow> (pytuple \<Rightarrow> 'x world_scheme \<Rightarrow> pytuple \<times> 'x world_scheme) option option
     \<Rightarrow> 'x vector_env \<Rightarrow> bool \<Rightarrow> InjectMode \<Rightarrow> int list \<Rightarrow> real \<Rightarrow> 'x world_scheme
     \<Rightarrow> ((error + rollout_result) \<times> 'x world_scheme) option" where
  "rollout_episodes_call kw_n_episodes kw_render kw_get_obs kw_get_actions kw_trainer
       kw_action_callback kw_env kw_inject kw_inject_mode kw_agents_to_inject kw_noise_delta w =
     (case kw_action_callback of
        None \<Rightarrow> Some (Inl TypeError, w)
      | Some cb \<Rightarrow>
          rollout_episodes
            \<lparr>n_episodes = kw_n_episodes, render = kw_render, get_obs = kw_get_obs,
              get_actions = kw_get_actions, trainer = kw_trainer, action_callback = cb,
              env = kw_env, inject = kw_inject, inject_mode = kw_inject_mode,
              agents_to_inject = kw_agents_to_inject, noise_delta = kw_noise_delta\<rparr> w)"

section \<open>The noise sweep (evaluate/evaluate_resiliance.py, evaluate_increasing_noise)\<close>

text \<open>Python's \<^verbatim>\<open>xs[k]\<close>.\<close>

definition py_get :: "'a list \<Rightarrow> int \<Rightarrow> error + 'a" where
  "py_get xs k = (case py_index (length xs) k of None \<Rightarrow> Inl IndexError | Some p \<Rightarrow> Inr (xs ! p))"

text \<open>\<^verbatim>\<open>np.linspace(start, stop, num)\<close>: \<open>num\<close> evenly spaced values, both ends included.\<close>

definition linspace :: "real \<Rightarrow> real \<Rightarrow> nat \<Rightarrow> real list" where
  "linspace start stop num =
     map (\<lambda>j. start + real j * ((stop - start) / real (num - 1))) [0..<num]"

text \<open>
  The result tensors, indexed \<open>[policy][magnitude][episode]\<close>, and the assignment
  \<^verbatim>\<open>t[i, j] = row\<close>.
\<close>

type_synonym tensor = "real list list list"

definition zeros :: "nat \<Rightarrow> nat \<Rightarrow> nat \<Rightarrow> tensor" where
  "zeros n1 n2 n3 = replicate n1 (replicate n2 (replicate n3 0))"

definition set_row :: "tensor \<Rightarrow> nat \<Rightarrow> nat \<Rightarrow> real list \<Rightarrow> tensor" where
  "set_row t i j row = t[i := (t ! i)[j := row]]"

text \<open>
  \<^verbatim>\<open>for i, trainer in enumerate(trainers)\<close>, for the magnitude \<open>noise\<close> of index
  \<open>j\<close>. The call of \<^verbatim>\<open>rollout_episodes\<close> gives ten keywords and no
  \<^verbatim>\<open>action_callback\<close>.
\<close>

fun trainers_for ::
  "nat \<Rightarrow> int list \<Rightarrow> InjectMode \<Rightarrow> 'x vector_env list \<Rightarrow> nat \<Rightarrow> real
     \<Rightarrow> (nat \<times> 'x MultiPPOTrainer) list \<Rightarrow> tensor \<times> tensor \<Rightarrow> 'x world_scheme
     \<Rightarrow> ((error + tensor \<times> tensor) \<times> 'x world_scheme) option" where
  "trainers_for n_episodes_per_model ati mode envs j noise [] t w = Some (Inr t, w)"
| "trainers_for n_episodes_per_model ati mode envs j noise ((i, tr) # rest) t w =
     (case py_get envs (int i) of
        Inl e \<Rightarrow> Some (Inl e, w)
      | Inr env_i \<Rightarrow>
          (case rollout_episodes_call n_episodes_per_model False True False (Some tr) None
                  env_i True mode ati noise w of
             None \<Rightarrow> None
           | Some (Inl e, w1) \<Rightarrow> Some (Inl e, w1)
           | Some (Inr (rews, _, obs, _), w1) \<Rightarrow>
               (case obs of
                  None \<Rightarrow> Some (Inl TypeError, w1)
                | Some obs1 \<Rightarrow>
                    (let len_obs = map length obs1 in
                     trainers_for n_episodes_per_model ati mode envs j noise rest
                       (set_row (fst t) i j rews,
                        set_row (snd t) i j
                          (map (\<lambda>l. if int l < max_steps tr then 1 else 0) len_obs))
                       w1))))"

text \<open>\<^verbatim>\<open>for j, noise in enumerate(noises)\<close>.\<close>

fun noises_for ::
  "nat \<Rightarrow> int list \<Rightarrow> InjectMode \<Rightarrow> 'x vector_env list \<Rightarrow> 'x MultiPPOTrainer list
     \<Rightarrow> (nat \<times> real) list \<Rightarrow> tensor \<times> tensor \<Rightarrow> 'x world_scheme
     \<Rightarrow> ((error + tensor \<times> tensor) \<times> 'x world_scheme) option" where
  "noises_for n_episodes_per_model ati mode envs trainers [] t w = Some (Inr t, w)"
| "noises_for n_episodes_per_model ati mode envs trainers ((j, noise) # rest) t w =
     (case trainers_for n_episodes_per_model ati mode envs j noise
             (List.enumerate 0 trainers) t w of
        None \<Rightarrow> None
      | Some (Inl e, w1) \<Rightarrow> Some (Inl e, w1)
      | Some (Inr t1, w1) \<Rightarrow> noises_for n_episodes_per_model ati mode envs trainers rest t1 w1)"

text \<open>
  \<^verbatim>\<open>evaluate_increasing_noise\<close>, up to the plot: the tensors \<open>(rewards, done)\<close> it
  has filled. Restoring a checkpoint belongs to the training framework: \<open>checkpoints\<close>
  is, for each path, the trainer and the environment restored from it.
\<close>

definition evaluate_increasing_noise ::
  "('x MultiPPOTrainer \<times> 'x vector_env) list \<Rightarrow> nat \<Rightarrow> int list \<Rightarrow> InjectMode \<Rightarrow> 'x world_scheme
     \<Rightarrow> ((error + tensor \<times> tensor) \<times> 'x world_scheme) option" where
  "evaluate_increasing_noise checkpoints n_episodes_per_model ati mode w =
     (let noises = linspace 0 2 50;
          rewards0 = zeros (length checkpoints) (length noises) n_episodes_per_model;
          done0 = zeros (length checkpoints) (length noises) n_episodes_per_model;
          trainers = map fst checkpoints;
          envs = map snd checkpoints
      in noises_for n_episodes_per_model ati mode envs trainers (List.enumerate 0 noises)
           (rewards0, done0) w)"

section \<open>The aggregator (evaluate/evaluate_resiliance.py)\<close>

definition adjacent_values :: "real list \<Rightarrow> real \<Rightarrow> real \<Rightarrow> error + real \<times> real" where
  "adjacent_values vals q1 q3 =
     (let upper_adjacent_value = q3 + (q3 - q1) * 1.5 in
      case py_get vals (- 1) of
        Inl e \<Rightarrow> Inl e
      | Inr v_last \<Rightarrow>
          (let upper_adjacent_value = clip upper_adjacent_value q3 v_last;
               lower_adjacent_value = q1 - (q3 - q1) * 1.5 in
           case py_get vals 0 of
             Inl e \<Rightarrow> Inl e
           | Inr v_first \<Rightarrow>
               (let lower_adjacent_value = clip lower_adjacent_value v_first q1
                in Inr (lower_adjacent_value, upper_adjacent_value))))"

text \<open>
  \<^verbatim>\<open>np.percentile(a, q)\<close> of numpy, with its default linear interpolation: the
  array is sorted, the virtual index \<open>(n - 1) * q / 100\<close> is split into its integer part
  and its fraction, and the result lies between the two neighbours. Of an empty array it
  is \<^verbatim>\<open>nan\<close>, here \<open>None\<close>.
\<close>

definition percentile :: "real list \<Rightarrow> real \<Rightarrow> real option" where
  "percentile a q =
     (if a = [] then None
      else
        (let arr = sort a;
             n = length arr;
             virtual_index = (real n - 1) * (q / 100);
             previous_index = nat \<lfloor>virtual_index\<rfloor>;
             next_index = min (previous_index + 1) (n - 1);
             gamma = virtual_index - real previous_index
         in Some (arr ! previous_index + (arr ! next_index - arr ! previous_index) * gamma)))"

section \<open>Entries made by the action injector\<close>

text \<open>
  The entry at position \<open>p\<close> of the list \<open>new\<close> is an array that no other position of
  the list holds, and its elements are within the control range of agent \<open>p\<close>.
\<close>

definition clipped_entry :: "agent list \<Rightarrow> pytuple \<Rightarrow> 'x world_scheme \<Rightarrow> nat \<Rightarrow> bool" where
  "clipped_entry ags new w p \<longleftrightarrow>
     (\<forall>r<length new. r \<noteq> p \<longrightarrow> new ! r \<noteq> new ! p) \<and>
     (\<forall>x\<in>set (arrays w (new ! p)). - u_range (ags ! p) \<le> x \<and> x \<le> u_range (ags ! p))"

section \<open>A small simulator\<close>

text \<open>
  A world with the simulator's step counter, two agents of control range 1 whose
  observations are the arrays at addresses 0 and 1, an environment that ends an episode
  at its third step, and a policy that answers with the arrays at addresses 2 and 3.
\<close>

record sim_world = world +
  steps :: nat

definition ex_world :: sim_world where
  "ex_world =
     \<lparr>arrays = (\<lambda>_. [])(0 := [1], 1 := [2], 2 := [0], 3 := [5]), next_addr = 4,
       rng = (\<lambda>_. 3 / 4), steps = 0\<rparr>"

definition ex_env :: "unit sim_world_ext vector_env" where
  "ex_env =
     \<lparr>agents = [\<lparr>u_range = 1\<rparr>, \<lparr>u_range = 1\<rparr>],
       vector_reset = (\<lambda>w. ([0, 1], w\<lparr>steps := 0\<rparr>)),
       vector_step = (\<lambda>act w. (([0, 1], 1, 3 \<le> Suc (steps w)), w\<lparr>steps := Suc (steps w)\<rparr>)),
       try_render_at = (\<lambda>w. (steps w, w))\<rparr>"

definition ex_trainer :: "unit sim_world_ext MultiPPOTrainer" where
  "ex_trainer = \<lparr>compute_single_action = (\<lambda>ob w. ([2, 3], w)), max_steps = 3\<rparr>"

definition ex_args :: "InjectMode \<Rightarrow> unit sim_world_ext rollout_args" where
  "ex_args mode =
     \<lparr>n_episodes = 1, render = False, get_obs = True, get_actions = True,
       trainer = Some ex_trainer, action_callback = None, env = ex_env, inject = True,
       inject_mode = mode, agents_to_inject = [0], noise_delta = 1 / 2\<rparr>"

text \<open>The variables of an episode of the simulator at its start.\<close>

definition ex_state :: episode_state where
  "ex_state = \<lparr>frame_list = [], observations_this_episode = [], actions_this_episode = [],
        reward_sum = 0, observation = [0, 1], i_count = 0, done_flag = False\<rparr>"

section \<open>Properties of the injection modes\<close>

text \<open>
  C10. The three predicates of \<open>InjectMode\<close> are total functions: \<open>is_noise\<close> is true
  of both modes, \<open>is_obs\<close> is true exactly of \<open>OBS_NOISE\<close>, \<open>is_action\<close> is true exactly
  of \<open>ACTION_NOISE\<close>; so on every mode exactly one of \<open>is_obs\<close> and \<open>is_action\<close> holds.
\<close>

theorem InjectMode_predicates:
  "is_noise m = True \<and> is_obs m = (m = OBS_NOISE) \<and> is_action m = (m = ACTION_NOISE)
     \<and> is_obs m \<noteq> is_action m"
  by (cases m) (simp_all add: is_noise_def is_obs_def is_action_def)

section \<open>Properties of the injector\<close>

lemma inject_action_loop_not_assert:
  "fst (inject_action_loop ags d idxs new w) \<noteq> Inl AssertionError"
  by (induction ags d idxs new w rule: inject_action_loop.induct)
     (auto split: option.splits prod.splits simp: Let_def)

lemma inject_observation_loop_not_assert:
  "fst (inject_observation_loop d idxs new w) \<noteq> Inl AssertionError"
  by (induction d idxs new w rule: inject_observation_loop.induct)
     (auto split: option.splits prod.splits)

text \<open>
  C5. When there are more target indices than entries in the tuple, the injector (in
  either mode) raises the assertion's error, the spec's \<open>InvalidTargetSet\<close>, and leaves
  the world as it was: no array has been touched. When there are at most as many
  target indices as entries, it does not raise that error.
\<close>

theorem invalid_target_set:
  "(length x < length agent_indices \<longrightarrow>
      get_inject_function m d agent_indices e x w = (Inl AssertionError, w)) \<and>
   (length agent_indices \<le> length x \<longrightarrow>
      fst (get_inject_function m d agent_indices e x w) \<noteq> Inl AssertionError)"
  by (cases m)
     (simp_all add: get_inject_function_def inject_noise_in_action_def
        inject_noise_in_observation_def inject_action_loop_not_assert
        inject_observation_loop_not_assert)

text \<open>Three targets against a tuple of two agents, and one target against the same tuple.\<close>

theorem invalid_target_set_witness:
  "get_inject_function OBS_NOISE (1 / 10) [0, 1, 2] ex_env [0, 1] ex_world
     = (Inl AssertionError, ex_world) \<and>
   get_inject_function ACTION_NOISE (1 / 10) [0, 1, 2] ex_env [0, 1] ex_world
     = (Inl AssertionError, ex_world) \<and>
   fst (get_inject_function ACTION_NOISE (1 / 10) [0] ex_env [0, 1] ex_world)
     \<noteq> Inl AssertionError"
  using invalid_target_set [of "[0, 1]" "[0, 1, 2]" OBS_NOISE "1 / 10" ex_env ex_world]
    invalid_target_set [of "[0, 1]" "[0, 1, 2]" ACTION_NOISE "1 / 10" ex_env ex_world]
    invalid_target_set [of "[0, 1]" "[0]" ACTION_NOISE "1 / 10" ex_env ex_world]
  by simp

lemmas inject_run_defs =
  get_inject_function_def inject_noise_in_action_def inject_noise_in_observation_def
  py_index_def uniform_def iadd_def np_clip_def new_array_def clip_def ex_world_def
  ex_env_def

text \<open>
  C1 says that the injector leaves every entry of its input tuple as it was. The code
  copies the tuple into a new list, but the list holds the same array objects, and
  \<^verbatim>\<open>+=\<close> adds the noise to them in place. With the tuple of the arrays \<open>[1]\<close> and
  \<open>[2]\<close>, the target index 0, the magnitude \<open>1/2\<close> and the noise \<open>1/4\<close> drawn for it:
  in observation mode the injector returns the same two arrays, and entry 0 of the
  input holds \<open>[5/4]\<close> after the call; in action mode it returns a new, clipped array
  \<open>[1]\<close> for entry 0, and entry 0 of the input holds the unclipped \<open>[5/4]\<close>.
\<close>

theorem input_entry_mutated:
  "fst (get_inject_function OBS_NOISE (1 / 2) [0] ex_env [0, 1] ex_world) = Inr [0, 1] \<and>
   arrays ex_world 0 = [1] \<and>
   arrays (snd (get_inject_function OBS_NOISE (1 / 2) [0] ex_env [0, 1] ex_world)) 0 = [5 / 4] \<and>
   fst (get_inject_function ACTION_NOISE (1 / 2) [0] ex_env [0, 1] ex_world) = Inr [4, 1] \<and>
   arrays (snd (get_inject_function ACTION_NOISE (1 / 2) [0] ex_env [0, 1] ex_world)) 0 = [5 / 4] \<and>
   arrays (snd (get_inject_function ACTION_NOISE (1 / 2) [0] ex_env [0, 1] ex_world)) 4 = [1]"
  by (simp add: inject_run_defs)

text \<open>
  C2 says that an entry at an index that is not targeted comes out as it went in. When
  the tuple holds the same array object at a targeted and at an untargeted index, the
  addition in place changes both. With the tuple \<open>(a, a)\<close> for the array \<open>a = [1]\<close> and
  the target index 0: entry 1, which is not targeted, holds \<open>[1]\<close> before the call and
  \<open>[5/4]\<close> in the returned tuple, in either mode.
\<close>

theorem untargeted_alias_changed:
  "fst (get_inject_function OBS_NOISE (1 / 2) [0] ex_env [0, 0] ex_world) = Inr [0, 0] \<and>
   arrays ex_world ([0, 0] ! 1) = [1] \<and>
   arrays (snd (get_inject_function OBS_NOISE (1 / 2) [0] ex_env [0, 0] ex_world)) ([0, 0] ! 1)
     = [5 / 4] \<and>
   fst (get_inject_function ACTION_NOISE (1 / 2) [0] ex_env [0, 0] ex_world) = Inr [4, 0] \<and>
   arrays (snd (get_inject_function ACTION_NOISE (1 / 2) [0] ex_env [0, 0] ex_world)) ([4, 0] ! 1)
     = [5 / 4]"
  by (simp add: inject_run_defs)

lemma py_index_less: "py_index n k = Some p \<Longrightarrow> p < n"
  by (auto simp: py_index_def split: if_splits)

lemma clip_within: "0 \<le> u \<Longrightarrow> - u \<le> clip x (- u) u \<and> clip x (- u) u \<le> u"
  by (simp add: clip_def min_def max_def)

text \<open>One turn of the loop of the action injector that does not raise.\<close>

lemma inject_action_loop_step:
  assumes "inject_action_loop ags d (k # rest) new w = (Inr out, w')"
  obtains p q w3 where
    "py_index (length new) k = Some p" and "py_index (length ags) k = Some q"
    and "inject_action_loop ags d rest (new[p := next_addr w]) w3 = (Inr out, w')"
    and "next_addr w3 = Suc (next_addr w)"
    and "\<And>b. b \<noteq> new ! p \<Longrightarrow> b \<noteq> next_addr w \<Longrightarrow> arrays w3 b = arrays w b"
    and "arrays w3 (next_addr w) =
           map (\<lambda>x. clip x (- u_range (ags ! q)) (u_range (ags ! q)))
             (map2 (+) (arrays w (new ! p))
                (map (\<lambda>j. - d + (d - - d) * rng w j) [0..<length (arrays w (new ! p))]))"
    and "new ! p \<noteq> next_addr w \<Longrightarrow> arrays w3 (new ! p) =
             map2 (+) (arrays w (new ! p))
                (map (\<lambda>j. - d + (d - - d) * rng w j) [0..<length (arrays w (new ! p))])"
  using assms
  by (auto simp: Let_def uniform_def iadd_def np_clip_def new_array_def
        split: option.splits prod.splits)

lemma inject_action_loop_clipped:
  assumes "inject_action_loop ags d idxs new w = (Inr out, w')"
    and "\<forall>a\<in>set new. a < next_addr w"
    and "length ags = length new"
    and "\<forall>ag\<in>set ags. 0 \<le> u_range ag"
    and "base \<le> next_addr w"
    and "\<forall>p<length new. base \<le> new ! p \<longrightarrow> clipped_entry ags new w p"
  shows "length out = length new \<and>
         (\<forall>p<length new. base \<le> out ! p \<longrightarrow> clipped_entry ags out w' p) \<and>
         (\<forall>p<length new. base \<le> new ! p \<longrightarrow> base \<le> out ! p) \<and>
         (\<forall>k\<in>set idxs. \<forall>p. py_index (length new) k = Some p \<longrightarrow> base \<le> out ! p)"
  using assms
proof (induction idxs arbitrary: new w)
  case Nil
  then show ?case by simp
next
  case (Cons k rest)
  from Cons.prems(1) obtain p q w3 where
    p: "py_index (length new) k = Some p" and q: "py_index (length ags) k = Some q"
    and run: "inject_action_loop ags d rest (new[p := next_addr w]) w3 = (Inr out, w')"
    and nxt: "next_addr w3 = Suc (next_addr w)"
    and frame: "\<And>b. b \<noteq> new ! p \<Longrightarrow> b \<noteq> next_addr w \<Longrightarrow> arrays w3 b = arrays w b"
    and fresh: "arrays w3 (next_addr w) =
           map (\<lambda>x. clip x (- u_range (ags ! q)) (u_range (ags ! q)))
             (map2 (+) (arrays w (new ! p))
                (map (\<lambda>j. - d + (d - - d) * rng w j) [0..<length (arrays w (new ! p))]))"
    and "new ! p \<noteq> next_addr w \<Longrightarrow> arrays w3 (new ! p) =
             map2 (+) (arrays w (new ! p))
                (map (\<lambda>j. - d + (d - - d) * rng w j) [0..<length (arrays w (new ! p))])"
    by (rule inject_action_loop_step) blast
  define c where "c = next_addr w"
  define new' where "new' = new[p := c]"
  have pn: "p < length new" using p by (rule py_index_less)
  have qp: "q = p" using p q Cons.prems(3) by simp
  have old: "\<And>r. r < length new \<Longrightarrow> new ! r < c"
    using Cons.prems(2) by (simp add: c_def)
  have up: "0 \<le> u_range (ags ! p)" using Cons.prems(3,4) pn by simp
  have wf': "\<forall>a\<in>set new'. a < next_addr w3"
  proof
    fix a assume "a \<in> set new'"
    then have "a \<in> insert c (set new)" unfolding new'_def using set_update_subset_insert by fastforce
    then show "a < next_addr w3" using Cons.prems(2) by (auto simp: nxt c_def)
  qed
  have inv': "\<forall>r<length new'. base \<le> new' ! r \<longrightarrow> clipped_entry ags new' w3 r"
  proof (intro allI impI)
    fix r assume r: "r < length new'" and b: "base \<le> new' ! r"
    show "clipped_entry ags new' w3 r"
    proof (cases "r = p")
      case True
      have 1: "\<forall>s<length new'. s \<noteq> r \<longrightarrow> new' ! s \<noteq> new' ! r"
        using True pn old by (auto simp: new'_def)
      have 2: "\<forall>x\<in>set (arrays w3 (new' ! r)). - u_range (ags ! r) \<le> x \<and> x \<le> u_range (ags ! r)"
        using True pn up clip_within [OF up] by (auto simp: new'_def fresh [folded c_def] qp)
      show ?thesis using 1 2 by (simp add: clipped_entry_def)
    next
      case False
      have rn: "r < length new" using r by (simp add: new'_def)
      have eq: "new' ! r = new ! r" using False by (simp add: new'_def)
      have cl: "clipped_entry ags new w r" using Cons.prems(6) rn b eq by simp
      have ne: "new ! r \<noteq> new ! p" using cl pn False by (auto simp: clipped_entry_def)
      have same: "arrays w3 (new ! r) = arrays w (new ! r)"
        using frame [OF ne] old [OF rn] by (simp add: c_def)
      have 1: "\<forall>s<length new'. s \<noteq> r \<longrightarrow> new' ! s \<noteq> new' ! r"
      proof (intro allI impI)
        fix s assume s: "s < length new'" "s \<noteq> r"
        show "new' ! s \<noteq> new' ! r"
        proof (cases "s = p")
          case True
          then show ?thesis using pn old [OF rn] eq by (simp add: new'_def)
        next
          case False
          then show ?thesis using cl s eq by (auto simp: new'_def clipped_entry_def)
        qed
      qed
      show ?thesis using 1 cl by (simp add: clipped_entry_def eq same)
    qed
  qed
  have IH: "length out = length new' \<and>
         (\<forall>p<length new'. base \<le> out ! p \<longrightarrow> clipped_entry ags out w' p) \<and>
         (\<forall>p<length new'. base \<le> new' ! p \<longrightarrow> base \<le> out ! p) \<and>
         (\<forall>k\<in>set rest. \<forall>p. py_index (length new') k = Some p \<longrightarrow> base \<le> out ! p)"
    using run wf' Cons.prems(3,4,5) inv'
    by (intro Cons.IH [of new' w3]) (simp_all add: new'_def c_def nxt)
  have len: "length new' = length new" by (simp add: new'_def)
  have pfresh: "base \<le> new' ! p" using pn Cons.prems(5) by (simp add: new'_def c_def)
  have keep: "\<forall>r<length new. base \<le> new ! r \<longrightarrow> base \<le> out ! r"
  proof (intro allI impI)
    fix r assume "r < length new" "base \<le> new ! r"
    then have "base \<le> new' ! r" using pfresh by (cases "r = p") (simp_all add: new'_def)
    then show "base \<le> out ! r" using IH \<open>r < length new\<close> len by simp
  qed
  have tg: "\<forall>k'\<in>set (k # rest). \<forall>p'. py_index (length new) k' = Some p' \<longrightarrow> base \<le> out ! p'"
  proof (intro ballI allI impI)
    fix k' p' assume k': "k' \<in> set (k # rest)" and p': "py_index (length new) k' = Some p'"
    show "base \<le> out ! p'"
    proof (cases "k' = k")
      case True
      then have "p' = p" using p p' by simp
      then show ?thesis using IH pfresh pn len by simp
    next
      case False
      then have "k' \<in> set rest" using k' by simp
      then show ?thesis using IH p' len by simp
    qed
  qed
  show ?case using IH keep tg len by simp
qed

text \<open>
  C3. In action mode, for every draw of the noise and every target index \<open>k\<close>, every
  element of the returned entry that \<open>k\<close> addresses lies within \<open>[-bound, bound]\<close> for
  the \<^verbatim>\<open>u_range\<close> of that agent. The tuple holds one entry per agent of the
  environment, its arrays are allocated, and a control range is not negative.
\<close>

theorem action_within_range:
  assumes "get_inject_function ACTION_NOISE d idxs e t w = (Inr out, w')"
    and "\<forall>a\<in>set t. a < next_addr w"
    and "length (agents e) = length t"
    and "\<forall>ag\<in>set (agents e). 0 \<le> u_range ag"
    and "k \<in> set idxs" and "py_index (length t) k = Some p"
    and "x \<in> set (arrays w' (out ! p))"
  shows "- u_range (agents e ! p) \<le> x \<and> x \<le> u_range (agents e ! p)"
proof -
  have run: "inject_action_loop (agents e) d idxs t w = (Inr out, w')"
    using assms(1)
    by (simp add: get_inject_function_def inject_noise_in_action_def split: if_splits)
  have "\<forall>p<length t. next_addr w \<le> t ! p \<longrightarrow> clipped_entry (agents e) t w p"
    using assms(2) by (auto simp: all_set_conv_all_nth)
  from inject_action_loop_clipped [OF run assms(2,3,4) order_refl this]
  have cl: "\<forall>p<length t. next_addr w \<le> out ! p \<longrightarrow> clipped_entry (agents e) out w' p"
    and tg: "\<forall>k\<in>set idxs. \<forall>p. py_index (length t) k = Some p \<longrightarrow> next_addr w \<le> out ! p"
    by simp_all
  have "p < length t" using assms(6) by (rule py_index_less)
  moreover have "next_addr w \<le> out ! p" using tg assms(5,6) by blast
  ultimately have "clipped_entry (agents e) out w' p" using cl by simp
  then show ?thesis using assms(7) by (simp add: clipped_entry_def)
qed

text \<open>
  The action entry \<open>[5]\<close> of agent 1 with the noise \<open>1/4\<close>: the sum \<open>21/4\<close> is outside
  the range, and the returned entry is \<open>[1]\<close>.
\<close>

theorem action_within_range_witness:
  "fst (get_inject_function ACTION_NOISE (1 / 2) [1] ex_env [2, 3] ex_world) = Inr [2, 4] \<and>
   arrays (snd (get_inject_function ACTION_NOISE (1 / 2) [1] ex_env [2, 3] ex_world)) 4 = [1] \<and>
   - u_range (agents ex_env ! 1) \<le> 1 \<and> 1 \<le> u_range (agents ex_env ! 1)"
proof -
  let ?R = "get_inject_function ACTION_NOISE (1 / 2) [1] ex_env [2, 3] ex_world"
  have f: "fst ?R = Inr [2, 4]" by (simp add: inject_run_defs)
  have r: "?R = (Inr [2, 4], snd ?R)" using f by (simp add: prod_eq_iff)
  have v: "arrays (snd ?R) 4 = [1]" by (simp add: inject_run_defs)
  have m: "1 \<in> set (arrays (snd ?R) ([2, 4] ! 1))" using v by simp
  have "- u_range (agents ex_env ! 1) \<le> 1 \<and> 1 \<le> u_range (agents ex_env ! 1)"
    by (rule action_within_range [OF r _ _ _ _ _ m, of 1])
       (simp_all add: ex_env_def ex_world_def py_index_def)
  then show ?thesis using f v by simp
qed

text \<open>
  What does hold of the entries that are not targeted: in a tuple of allocated arrays,
  an entry whose array is not the array of any targeted entry comes out as the same
  object, with the elements it had before the call.
\<close>

lemma inject_observation_loop_frame:
  assumes "inject_observation_loop d idxs new w = (Inr out, w')"
    and "\<forall>k\<in>set idxs. \<forall>q. py_index (length new) k = Some q \<longrightarrow> new ! q \<noteq> b"
  shows "out = new \<and> arrays w' b = arrays w b"
  using assms
proof (induction idxs arbitrary: w)
  case Nil
  then show ?case by simp
next
  case (Cons k rest)
  from Cons.prems(1) obtain q where q: "py_index (length new) k = Some q"
    by (auto split: option.splits)
  define w2 where "w2 = iadd (new ! q)
      (fst (uniform (- d) d (length (arrays w (new ! q))) w))
      (snd (uniform (- d) d (length (arrays w (new ! q))) w))"
  have run: "inject_observation_loop d rest new w2 = (Inr out, w')"
    using Cons.prems(1) q by (simp add: w2_def split: prod.splits)
  have "new ! q \<noteq> b" using Cons.prems(2) q by simp
  then have same: "arrays w2 b = arrays w b" by (simp add: w2_def iadd_def uniform_def)
  show ?case using Cons.IH [OF run] Cons.prems(2) same by simp
qed

lemma inject_action_loop_frame:
  assumes "inject_action_loop ags d idxs new w = (Inr out, w')"
    and "\<forall>a\<in>set new. a < next_addr w"
    and "p < length new"
    and "\<forall>k\<in>set idxs. \<forall>q. py_index (length new) k = Some q \<longrightarrow> new ! q \<noteq> new ! p"
  shows "out ! p = new ! p \<and> arrays w' (new ! p) = arrays w (new ! p)"
  using assms
proof (induction idxs arbitrary: new w)
  case Nil
  then show ?case by simp
next
  case (Cons k rest)
  from Cons.prems(1) obtain p0 q w3 where
    p0: "py_index (length new) k = Some p0"
    and run: "inject_action_loop ags d rest (new[p0 := next_addr w]) w3 = (Inr out, w')"
    and nxt: "next_addr w3 = Suc (next_addr w)"
    and frame: "\<And>b. b \<noteq> new ! p0 \<Longrightarrow> b \<noteq> next_addr w \<Longrightarrow> arrays w3 b = arrays w b"
    by (rule inject_action_loop_step) blast
  define new' where "new' = new[p0 := next_addr w]"
  have old: "new ! p < next_addr w" using Cons.prems(2,3) by simp
  have ne: "new ! p0 \<noteq> new ! p" using Cons.prems(4) p0 by simp
  then have pp: "p0 \<noteq> p" by auto
  have keep: "new' ! p = new ! p" using pp by (simp add: new'_def)
  have same: "arrays w3 (new ! p) = arrays w (new ! p)"
    using frame [of "new ! p"] ne old by simp
  have wf': "\<forall>a\<in>set new'. a < next_addr w3"
  proof
    fix a assume "a \<in> set new'"
    then have "a \<in> insert (next_addr w) (set new)"
      unfolding new'_def using set_update_subset_insert by fastforce
    then show "a < next_addr w3" using Cons.prems(2) by (auto simp: nxt)
  qed
  have sep': "\<forall>k\<in>set rest. \<forall>q. py_index (length new') k = Some q \<longrightarrow> new' ! q \<noteq> new' ! p"
  proof (intro ballI allI impI)
    fix k' q' assume k': "k' \<in> set rest" and q': "py_index (length new') k' = Some q'"
    have qn: "q' < length new" using q' py_index_less by (fastforce simp: new'_def)
    show "new' ! q' \<noteq> new' ! p"
    proof (cases "q' = p0")
      case True
      then show ?thesis using qn old keep by (simp add: new'_def)
    next
      case False
      then show ?thesis using Cons.prems(4) k' q' keep by (simp add: new'_def)
    qed
  qed
  have "out ! p = new' ! p \<and> arrays w' (new' ! p) = arrays w3 (new' ! p)"
    using run wf' Cons.prems(3) sep' by (intro Cons.IH [of new' w3]) (simp_all add: new'_def)
  then show ?case using keep same by simp
qed

lemma untargeted_entry_unchanged:
  assumes "get_inject_function m d idxs e t w = (Inr out, w')"
    and "\<forall>a\<in>set t. a < next_addr w"
    and "p < length t"
    and "\<forall>k\<in>set idxs. \<forall>q. py_index (length t) k = Some q \<longrightarrow> t ! q \<noteq> t ! p"
  shows "out ! p = t ! p \<and> arrays w' (out ! p) = arrays w (t ! p)"
proof (cases m)
  case ACTION_NOISE
  then have "inject_action_loop (agents e) d idxs t w = (Inr out, w')"
    using assms(1)
    by (simp add: get_inject_function_def inject_noise_in_action_def split: if_splits)
  from inject_action_loop_frame [OF this assms(2,3,4)] show ?thesis by simp
next
  case OBS_NOISE
  then have "inject_observation_loop d idxs t w = (Inr out, w')"
    using assms(1)
    by (simp add: get_inject_function_def inject_noise_in_observation_def split: if_splits)
  from inject_observation_loop_frame [OF this assms(4)] show ?thesis by simp
qed

lemma clip_in_range: "- u \<le> x \<Longrightarrow> x \<le> u \<Longrightarrow> clip x (- u) u = x"
  by (simp add: clip_def)

lemma uniform_zero: "uniform 0 0 n w = (replicate n 0, w\<lparr>rng := (\<lambda>j. rng w (j + n))\<rparr>)"
  by (simp add: uniform_def map_replicate_const)

lemma add_zeros: "map2 (+) xs (replicate (length xs) 0) = (xs :: real list)"
  by (simp add: list_eq_iff_nth_eq)

lemma iadd_zero: "length (arrays w a) = n \<Longrightarrow> iadd a (replicate n 0) w = w"
  by (auto simp: iadd_def add_zeros)

lemma inject_observation_loop_zero:
  assumes "\<forall>k\<in>set idxs. py_index (length new) k \<noteq> None"
  shows "\<exists>w'. inject_observation_loop 0 idxs new w = (Inr new, w') \<and> arrays w' = arrays w \<and> next_addr w' = next_addr w"
  using assms
proof (induction idxs arbitrary: w)
  case Nil
  then show ?case by simp
next
  case (Cons k rest)
  then obtain p where p: "py_index (length new) k = Some p" by auto
  let ?w1 = "w\<lparr>rng := (\<lambda>j. rng w (j + length (arrays w (new ! p))))\<rparr>"
  have step: "inject_observation_loop 0 (k # rest) new w = inject_observation_loop 0 rest new ?w1"
    using p by (simp add: uniform_zero iadd_zero)
  from Cons.IH [of ?w1] Cons.prems
  obtain w' where "inject_observation_loop 0 rest new ?w1 = (Inr new, w')"
    and "arrays w' = arrays ?w1" and "next_addr w' = next_addr ?w1" by auto
  then show ?case using step by simp
qed

lemma inject_action_loop_zero:
  assumes "\<forall>k\<in>set idxs. py_index (length new) k \<noteq> None"
    and "length ags = length new"
    and "\<forall>a\<in>set new. a < next_addr w"
    and "\<forall>k\<in>set idxs. \<forall>p. py_index (length new) k = Some p \<longrightarrow>
           (\<forall>x\<in>set (arrays w (new ! p)). - u_range (ags ! p) \<le> x \<and> x \<le> u_range (ags ! p))"
  shows "\<exists>out w'. inject_action_loop ags 0 idxs new w = (Inr out, w') \<and>
           length out = length new \<and> (\<forall>p<length new. arrays w' (out ! p) = arrays w (new ! p))"
  using assms
proof (induction idxs arbitrary: new w)
  case Nil
  then show ?case by simp
next
  case (Cons k rest)
  from Cons.prems(1) obtain p where p: "py_index (length new) k = Some p" by auto
  have pn: "p < length new" using p by (rule py_index_less)
  define xs where "xs = arrays w (new ! p)"
  define c where "c = next_addr w"
  define w3 where "w3 = w\<lparr>rng := (\<lambda>j. rng w (j + length xs)), arrays := (arrays w)(c := xs),
      next_addr := Suc c\<rparr>"
  define new' where "new' = new[p := c]"
  have rg: "\<forall>x\<in>set xs. - u_range (ags ! p) \<le> x \<and> x \<le> u_range (ags ! p)"
    using Cons.prems(4) p by (simp add: xs_def)
  have cl: "map (\<lambda>x. clip x (- u_range (ags ! p)) (u_range (ags ! p))) xs = xs"
    using rg by (simp add: map_idI clip_in_range)
  have step: "inject_action_loop ags 0 (k # rest) new w = inject_action_loop ags 0 rest new' w3"
    using p Cons.prems(2) cl
    by (simp add: Let_def uniform_zero iadd_zero np_clip_def new_array_def xs_def c_def w3_def new'_def)
  have old: "\<And>r. r < length new \<Longrightarrow> new ! r < c" using Cons.prems(3) by (simp add: c_def)
  have same: "\<forall>r<length new. arrays w3 (new' ! r) = arrays w (new ! r)"
  proof (intro allI impI)
    fix r assume r: "r < length new"
    show "arrays w3 (new' ! r) = arrays w (new ! r)"
      using old [OF r] pn by (cases "r = p") (simp_all add: new'_def w3_def xs_def)
  qed
  have wf': "\<forall>a\<in>set new'. a < next_addr w3"
  proof
    fix a assume "a \<in> set new'"
    then have "a \<in> insert c (set new)"
      unfolding new'_def using set_update_subset_insert by fastforce
    then show "a < next_addr w3" using Cons.prems(3) by (auto simp: w3_def c_def)
  qed
  have len': "length new' = length new" by (simp add: new'_def)
  have rg': "\<forall>k\<in>set rest. \<forall>p. py_index (length new') k = Some p \<longrightarrow>
           (\<forall>x\<in>set (arrays w3 (new' ! p)). - u_range (ags ! p) \<le> x \<and> x \<le> u_range (ags ! p))"
    using Cons.prems(4) same py_index_less by (simp add: len')
  from Cons.IH [of new' w3] Cons.prems(1,2) wf' rg' len'
  obtain out w' where "inject_action_loop ags 0 rest new' w3 = (Inr out, w')"
    and "length out = length new'"
    and "\<forall>p<length new'. arrays w' (out ! p) = arrays w3 (new' ! p)"
    by auto
  then show ?case using step same len' by simp
qed

text \<open>
  C4 says that with the magnitude zero the injector returns its input, in either mode
  and for every input tuple. In action mode the entry is still clipped: the action
  entry \<open>[5]\<close> of agent 1, whose control range is 1, comes back as \<open>[1]\<close>.
\<close>

theorem zero_noise_clips_counterexample:
  "fst (get_inject_function ACTION_NOISE 0 [1] ex_env [2, 3] ex_world) = Inr [2, 4] \<and>
   arrays ex_world ([2, 3] ! 1) = [5] \<and>
   arrays (snd (get_inject_function ACTION_NOISE 0 [1] ex_env [2, 3] ex_world)) ([2, 4] ! 1)
     = [1]"
  by (simp add: inject_run_defs)

text \<open>
  C4, amended. With the magnitude zero and target indices that all address an entry of
  the tuple, at most as many as it has entries: in observation mode the injector
  returns its input tuple and leaves every array as it was; in action mode, when the
  tuple holds one allocated array per agent and every targeted entry lies within the
  control range of its agent, it returns a tuple whose entries equal the entries of
  the input.
\<close>

theorem zero_noise_identity:
  assumes "length idxs \<le> length t"
    and "\<forall>k\<in>set idxs. py_index (length t) k \<noteq> None"
    and "m = ACTION_NOISE \<longrightarrow>
           length (agents e) = length t \<and> (\<forall>a\<in>set t. a < next_addr w) \<and>
           (\<forall>k\<in>set idxs. \<forall>p. py_index (length t) k = Some p \<longrightarrow>
              (\<forall>x\<in>set (arrays w (t ! p)).
                 - u_range (agents e ! p) \<le> x \<and> x \<le> u_range (agents e ! p)))"
  shows "\<exists>out w'. get_inject_function m 0 idxs e t w = (Inr out, w') \<and>
           length out = length t \<and>
           (\<forall>p<length t. arrays w' (out ! p) = arrays w (t ! p)) \<and>
           (m = OBS_NOISE \<longrightarrow> out = t \<and> arrays w' = arrays w)"
proof (cases m)
  case ACTION_NOISE
  then show ?thesis
    using assms inject_action_loop_zero [of idxs t "agents e" w]
    by (simp add: get_inject_function_def inject_noise_in_action_def)
next
  case OBS_NOISE
  then show ?thesis
    using assms(1,2) inject_observation_loop_zero [of idxs t w]
    by (auto simp: get_inject_function_def inject_noise_in_observation_def)
qed

text \<open>
  Both agents targeted in observation mode (the second by the index \<open>-1\<close>), and the
  action entry \<open>[0]\<close> of agent 0 in action mode.
\<close>

theorem zero_noise_identity_witness:
  "(\<exists>w'. get_inject_function OBS_NOISE 0 [0, - 1] ex_env [0, 1] ex_world = (Inr [0, 1], w') \<and>
      arrays w' = arrays ex_world) \<and>
   (\<exists>out w'. get_inject_function ACTION_NOISE 0 [0] ex_env [2, 3] ex_world = (Inr out, w') \<and>
      arrays w' (out ! 0) = [0] \<and> arrays w' (out ! 1) = [5])"
proof -
  have "\<exists>out w'. get_inject_function OBS_NOISE 0 [0, - 1] ex_env [0, 1] ex_world = (Inr out, w') \<and>
           length out = length [0::nat, 1] \<and>
           (\<forall>p<length [0::nat, 1]. arrays w' (out ! p) = arrays ex_world ([0, 1] ! p)) \<and>
           (OBS_NOISE = OBS_NOISE \<longrightarrow> out = [0, 1] \<and> arrays w' = arrays ex_world)"
    by (rule zero_noise_identity) (simp_all add: py_index_def)
  moreover
  have "\<exists>out w'. get_inject_function ACTION_NOISE 0 [0] ex_env [2, 3] ex_world = (Inr out, w') \<and>
           length out = length [2::nat, 3] \<and>
           (\<forall>p<length [2::nat, 3]. arrays w' (out ! p) = arrays ex_world ([2, 3] ! p)) \<and>
           (ACTION_NOISE = OBS_NOISE \<longrightarrow> out = [2, 3] \<and> arrays w' = arrays ex_world)"
    by (rule zero_noise_identity) (simp_all add: py_index_def ex_env_def ex_world_def)
  ultimately show ?thesis by (auto simp: ex_world_def)
qed

section \<open>Properties of the episode roller\<close>

text \<open>The body of the loop, with its local variables resolved.\<close>

lemma episode_body_unfold:
  "episode_body a s w =
     (case (if inject a \<and> is_obs (inject_mode a)
            then get_inject_function (inject_mode a) (noise_delta a) (agents_to_inject a)
                   (env a) (observation s) w
            else (Inr (observation s), w)) of
        (Inl e, w1) \<Rightarrow> (Inl e, w1)
      | (Inr ob, w1) \<Rightarrow>
          (case compute_action a ob w1 of
             (Inl e, w2) \<Rightarrow> (Inl e, w2)
           | (Inr act, w2) \<Rightarrow>
               (case (if inject a \<and> is_action (inject_mode a)
                      then get_inject_function (inject_mode a) (noise_delta a)
                             (agents_to_inject a) (env a) act w2
                      else (Inr act, w2)) of
                  (Inl e, w3) \<Rightarrow> (Inl e, w3)
                | (Inr act', w3) \<Rightarrow>
                    (case vector_step (env a) act' w3 of
                       ((ob', reward, d), w4) \<Rightarrow>
                         (if render a
                          then (case try_render_at (env a) w4 of
                                  (f, w5) \<Rightarrow>
                                    (Inr \<lparr>frame_list = frame_list s @ [f],
                                       observations_this_episode =
                                         (if get_obs a then observations_this_episode s @ [ob]
                                          else observations_this_episode s),
                                       actions_this_episode =
                                         (if get_actions a then actions_this_episode s @ [act']
                                          else actions_this_episode s),
                                       reward_sum = reward_sum s + reward, observation = ob',
                                       i_count = i_count s + 1, done_flag = d\<rparr>, w5))
                          else (Inr \<lparr>frame_list = frame_list s,
                                       observations_this_episode =
                                         (if get_obs a then observations_this_episode s @ [ob]
                                          else observations_this_episode s),
                                       actions_this_episode =
                                         (if get_actions a then actions_this_episode s @ [act']
                                          else actions_this_episode s),
                                       reward_sum = reward_sum s + reward, observation = ob',
                                       i_count = i_count s + 1, done_flag = d\<rparr>, w4))))))"
  by (cases s; cases "get_obs a"; cases "get_actions a"; cases "render a")
     (simp_all add: episode_body_def Let_def split: prod.splits sum.splits cong: if_cong)

text \<open>A turn of the loop that does not raise, step by step.\<close>

lemma episode_body_Inr:
  assumes "episode_body a s w = (Inr s', w')"
  shows "\<exists>ob w1 act w2 act' w3 ob' reward d w4.
      (if inject a \<and> is_obs (inject_mode a)
       then get_inject_function (inject_mode a) (noise_delta a) (agents_to_inject a) (env a)
              (observation s) w = (Inr ob, w1)
       else ob = observation s \<and> w1 = w) \<and>
      observations_this_episode s' =
        (if get_obs a then observations_this_episode s @ [ob] else observations_this_episode s) \<and>
      compute_action a ob w1 = (Inr act, w2) \<and>
      (if inject a \<and> is_action (inject_mode a)
       then get_inject_function (inject_mode a) (noise_delta a) (agents_to_inject a) (env a)
              act w2 = (Inr act', w3)
       else act' = act \<and> w3 = w2) \<and>
      actions_this_episode s' =
        (if get_actions a then actions_this_episode s @ [act'] else actions_this_episode s) \<and>
      vector_step (env a) act' w3 = ((ob', reward, d), w4) \<and>
      observation s' = ob' \<and> done_flag s' = d \<and> reward_sum s' = reward_sum s + reward \<and>
      i_count s' = i_count s + 1 \<and>
      (if render a
       then \<exists>f. try_render_at (env a) w4 = (f, w') \<and> frame_list s' = frame_list s @ [f]
       else w' = w4 \<and> frame_list s' = frame_list s)"
  using assms unfolding episode_body_unfold
  by (auto split: prod.splits sum.splits if_splits)

text \<open>The action is the answer of the trainer, or of the callback when there is no trainer.\<close>

lemma compute_action_Inr:
  "compute_action a ob w = (Inr act, w') \<longleftrightarrow>
     (\<exists>t. trainer a = Some t \<and> compute_single_action t ob w = (act, w')) \<or>
     (trainer a = None \<and> (\<exists>cb. action_callback a = Some cb \<and> cb ob w = (act, w')))"
  by (auto simp: compute_action_def split: option.splits prod.splits)

text \<open>
  C6. A turn of the episode loop that does not raise goes through these steps, each in
  the world the step before it has left: (1) when injection is on and the mode targets
  observations, the observation is replaced by the injected one; (2) that observation
  is appended to the observation log when observations are collected; (3) the policy
  is asked for an action on that observation (the trainer's
  \<^verbatim>\<open>compute_single_action\<close> when there is a trainer, the callback otherwise); (4) when injection is
  on and the mode targets actions, the action is replaced by the injected one; (5) that
  action is appended to the action log when actions are collected; (6) the environment
  is stepped with that action, the reward it returns is added to the sum and its
  observation and end flag are kept for the next turn. A frame is rendered last, when
  asked for.
\<close>

theorem episode_body_order:
  assumes "episode_body a s w = (Inr s', w')"
  shows "\<exists>ob w1 act w2 act' w3 ob' reward d w4.
      (if inject a \<and> is_obs (inject_mode a)
       then get_inject_function (inject_mode a) (noise_delta a) (agents_to_inject a) (env a)
              (observation s) w = (Inr ob, w1)
       else ob = observation s \<and> w1 = w) \<and>
      observations_this_episode s' =
        (if get_obs a then observations_this_episode s @ [ob] else observations_this_episode s) \<and>
      ((\<exists>t. trainer a = Some t \<and> compute_single_action t ob w1 = (act, w2)) \<or>
       (trainer a = None \<and> (\<exists>cb. action_callback a = Some cb \<and> cb ob w1 = (act, w2)))) \<and>
      (if inject a \<and> is_action (inject_mode a)
       then get_inject_function (inject_mode a) (noise_delta a) (agents_to_inject a) (env a)
              act w2 = (Inr act', w3)
       else act' = act \<and> w3 = w2) \<and>
      actions_this_episode s' =
        (if get_actions a then actions_this_episode s @ [act'] else actions_this_episode s) \<and>
      vector_step (env a) act' w3 = ((ob', reward, d), w4) \<and>
      observation s' = ob' \<and> done_flag s' = d \<and> reward_sum s' = reward_sum s + reward \<and>
      i_count s' = i_count s + 1 \<and>
      (if render a
       then \<exists>f. try_render_at (env a) w4 = (f, w') \<and> frame_list s' = frame_list s @ [f]
       else w' = w4 \<and> frame_list s' = frame_list s)"
  using episode_body_Inr [OF assms] unfolding compute_action_Inr .

text \<open>The first turn of an episode of the simulator, with observation noise on agent 0.\<close>

lemma ex_init: "episode_init (ex_args m) ex_world = (ex_state, ex_world)"
  by (simp add: episode_init_def ex_args_def ex_env_def ex_world_def ex_state_def)

lemmas ex_body_defs = episode_body_unfold ex_args_def is_obs_def is_action_def compute_action_def
  ex_trainer_def inject_run_defs ex_state_def

lemma ex_body_obs:
  "\<exists>s' w'. episode_body (ex_args OBS_NOISE) ex_state ex_world = (Inr s', w')"
  by (simp add: ex_body_defs)

lemma ex_steps_obs:
  "\<exists>s' w'. episode_steps (Suc (Suc (Suc 0))) (ex_args OBS_NOISE) ex_state ex_world = Some (s', w')"
  by (simp add: ex_body_defs)

theorem episode_body_order_witness:
  "\<exists>s' w' w1 w2 ob' reward d.
      episode_body (ex_args OBS_NOISE) ex_state ex_world = (Inr s', w') \<and>
      trainer (ex_args OBS_NOISE) = Some ex_trainer \<and>
      get_inject_function OBS_NOISE (1 / 2) [0] ex_env [0, 1] ex_world = (Inr [0, 1], w1) \<and>
      observations_this_episode s' = [[0, 1]] \<and>
      compute_single_action ex_trainer [0, 1] w1 = ([2, 3], w2) \<and>
      actions_this_episode s' = [[2, 3]] \<and>
      vector_step ex_env [2, 3] w2 = ((ob', reward, d), w') \<and>
      observation s' = ob' \<and> done_flag s' = d \<and> reward_sum s' = reward \<and> i_count s' = 1"
proof -
  obtain s' w' where b: "episode_body (ex_args OBS_NOISE) ex_state ex_world = (Inr s', w')"
    using ex_body_obs by blast
  have f: "inject (ex_args OBS_NOISE)" "is_obs (inject_mode (ex_args OBS_NOISE))"
    "\<not> is_action (inject_mode (ex_args OBS_NOISE))" "get_obs (ex_args OBS_NOISE)"
    "get_actions (ex_args OBS_NOISE)" "\<not> render (ex_args OBS_NOISE)"
    "env (ex_args OBS_NOISE) = ex_env" "inject_mode (ex_args OBS_NOISE) = OBS_NOISE"
    "noise_delta (ex_args OBS_NOISE) = 1 / 2" "agents_to_inject (ex_args OBS_NOISE) = [0]"
    "observations_this_episode ex_state = []" "actions_this_episode ex_state = []"
    "reward_sum ex_state = 0" "i_count ex_state = 0" "observation ex_state = [0, 1]"
    by (simp_all add: ex_args_def is_obs_def is_action_def ex_state_def)
  have tr: "trainer (ex_args OBS_NOISE) = Some ex_trainer" by (simp add: ex_args_def)
  have "\<exists>ob w1 act w2 ob' reward d.
      get_inject_function OBS_NOISE (1 / 2) [0] ex_env [0, 1] ex_world = (Inr ob, w1) \<and>
      observations_this_episode s' = [ob] \<and>
      compute_single_action ex_trainer ob w1 = (act, w2) \<and>
      actions_this_episode s' = [act] \<and>
      vector_step ex_env act w2 = ((ob', reward, d), w') \<and>
      observation s' = ob' \<and> done_flag s' = d \<and> reward_sum s' = reward \<and> i_count s' = 1"
    using episode_body_order [OF b]
    by (simp add: f tr is_obs_def is_action_def cong: if_cong) blast
  then obtain ob w1 act w2 ob' reward d where
    1: "get_inject_function OBS_NOISE (1 / 2) [0] ex_env [0, 1] ex_world = (Inr ob, w1)"
    and 2: "observations_this_episode s' = [ob]"
    and 3: "compute_single_action ex_trainer ob w1 = (act, w2)"
    and 4: "actions_this_episode s' = [act]"
    and 5: "vector_step ex_env act w2 = ((ob', reward, d), w')"
    and 6: "observation s' = ob' \<and> done_flag s' = d \<and> reward_sum s' = reward \<and> i_count s' = 1"
    by blast
  have "fst (get_inject_function OBS_NOISE (1 / 2) [0] ex_env [0, 1] ex_world) = Inr [0, 1]"
    by (simp add: inject_run_defs)
  then have ob: "ob = [0, 1]" using 1 by simp
  have act: "act = [2, 3]" using 3 by (simp add: ex_trainer_def)
  show ?thesis using b tr 1 2 3 4 5 6 unfolding ob act by blast
qed

lemma episode_body_counts:
  assumes "episode_body a s w = (Inr s1, w1)"
  shows "i_count s1 = i_count s + 1 \<and>
         length (observations_this_episode s1) =
           length (observations_this_episode s) + (if get_obs a then 1 else 0) \<and>
         length (actions_this_episode s1) =
           length (actions_this_episode s) + (if get_actions a then 1 else 0)"
  using assms unfolding episode_body_unfold
  by (auto split: prod.splits sum.splits if_splits)

lemma episode_steps_counts:
  "episode_steps k a s w = Some (s', w') \<Longrightarrow>
     i_count s' = i_count s + k \<and>
     length (observations_this_episode s') =
       length (observations_this_episode s) + (if get_obs a then k else 0) \<and>
     length (actions_this_episode s') =
       length (actions_this_episode s) + (if get_actions a then k else 0)"
proof (induction k arbitrary: s w)
  case 0
  then show ?case by (simp split: if_splits)
next
  case (Suc k)
  from Suc.prems obtain s1 w1 where b: "episode_body a s w = (Inr s1, w1)"
    and r: "episode_steps k a s1 w1 = Some (s', w')"
    by (auto split: if_splits prod.splits sum.splits)
  show ?case using Suc.IH [OF r] episode_body_counts [OF b] by (simp split: if_splits)
qed

lemma episode_steps_while:
  "episode_steps k a s w = Some (s', w') \<Longrightarrow> episode_while a s w = Some (Inr s', w')"
proof (induction k arbitrary: s w)
  case 0
  then show ?case by (subst episode_while.simps) (simp split: if_splits)
next
  case (Suc k)
  from Suc.prems obtain s1 w1 where nd: "\<not> done_flag s" and b: "episode_body a s w = (Inr s1, w1)"
    and r: "episode_steps k a s1 w1 = Some (s', w')"
    by (auto split: if_splits prod.splits sum.splits)
  show ?case using Suc.IH [OF r] nd b by (subst episode_while.simps) simp
qed

lemma episode_while_steps:
  "episode_while a s w = Some y \<Longrightarrow>
     \<forall>s' w'. y = (Inr s', w') \<longrightarrow> (\<exists>k. episode_steps k a s w = Some (s', w'))"
proof (rule episode_while.raw_induct
    [where P = "\<lambda>a s w y. \<forall>s' w'. y = (Inr s', w') \<longrightarrow>
                  (\<exists>k. episode_steps k a s w = Some (s', w'))"], goal_cases)
  case (1 loop a s w y)
  note IH = 1(2) and body = 1(3)
  show ?case
  proof (cases "done_flag s")
    case True
    then have y: "y = (Inr s, w)" using body by simp
    have "episode_steps 0 a s w = Some (s, w)" using True by simp
    then show ?thesis using y by blast
  next
    case False
    show ?thesis
    proof (intro allI impI)
      fix s' w' assume y: "y = (Inr s', w')"
      obtain r w1 where b: "episode_body a s w = (r, w1)" by (cases "episode_body a s w")
      show "\<exists>k. episode_steps k a s w = Some (s', w')"
      proof (cases r)
        case (Inl e)
        then show ?thesis using body False b y by simp
      next
        case (Inr s1)
        then have l: "loop a s1 w1 = Some y" using body False b by simp
        have "\<exists>k. episode_steps k a s1 w1 = Some (s', w')" using IH [OF l] y by blast
        then obtain k where "episode_steps k a s1 w1 = Some (s', w')" ..
        then have "episode_steps (Suc k) a s w = Some (s', w')" using False b Inr by simp
        then show ?thesis by blast
      qed
    qed
  qed
qed

lemma episode_init_state:
  assumes "episode_init a w = (s0, w0)"
  shows "i_count s0 = 0 \<and> observations_this_episode s0 = [] \<and> actions_this_episode s0 = [] \<and>
         \<not> done_flag s0 \<and> reward_sum s0 = 0"
  using assms by (auto simp: episode_init_def Let_def split: prod.splits if_splits)

text \<open>
  C7. In an episode of \<^verbatim>\<open>rollout_episodes\<close>, from the state and the world that the
  start of the episode leaves: when the loop ends, it has made \<open>i\<close> turns for its
  counter \<open>i\<close>, at least one, the environment has been stepped once in each, and the
  observation log (when observations are collected) and the action log (when actions
  are collected) have length \<open>i\<close>. And for every \<open>k\<close>, when the environment reports
  the end of the episode at its \<open>k\<close>-th step and no turn raises, the loop does end,
  with the counter \<open>k\<close>.
\<close>

theorem trajectory_log_length:
  assumes "episode_init a w = (s0, w0)"
  shows "(\<forall>s' w'. episode_while a s0 w0 = Some (Inr s', w') \<longrightarrow>
            1 \<le> i_count s' \<and> episode_steps (i_count s') a s0 w0 = Some (s', w') \<and>
            (get_obs a \<longrightarrow> length (observations_this_episode s') = i_count s') \<and>
            (get_actions a \<longrightarrow> length (actions_this_episode s') = i_count s')) \<and>
         (\<forall>k s' w'. episode_steps k a s0 w0 = Some (s', w') \<longrightarrow>
            episode_while a s0 w0 = Some (Inr s', w') \<and> i_count s' = k)"
proof -
  note init = episode_init_state [OF assms]
  have steps: "i_count s' = k \<and> 1 \<le> k \<and>
      (get_obs a \<longrightarrow> length (observations_this_episode s') = k) \<and>
      (get_actions a \<longrightarrow> length (actions_this_episode s') = k)"
    if "episode_steps k a s0 w0 = Some (s', w')" for k s' w'
  proof -
    have "k \<noteq> 0" using that init by (cases k) simp_all
    then show ?thesis using episode_steps_counts [OF that] init by simp
  qed
  have returns: "1 \<le> i_count s' \<and> episode_steps (i_count s') a s0 w0 = Some (s', w') \<and>
            (get_obs a \<longrightarrow> length (observations_this_episode s') = i_count s') \<and>
            (get_actions a \<longrightarrow> length (actions_this_episode s') = i_count s')"
    if "episode_while a s0 w0 = Some (Inr s', w')" for s' w'
  proof -
    have "\<exists>k. episode_steps k a s0 w0 = Some (s', w')"
      using episode_while_steps [OF that] by simp
    then obtain k where k: "episode_steps k a s0 w0 = Some (s', w')" ..
    show ?thesis using steps [OF k] k by simp
  qed
  have ends: "episode_while a s0 w0 = Some (Inr s', w') \<and> i_count s' = k"
    if "episode_steps k a s0 w0 = Some (s', w')" for k s' w'
    using episode_steps_while [OF that] steps [OF that] by simp
  show ?thesis
  proof (intro conjI allI impI)
    fix s' w' assume r: "episode_while a s0 w0 = Some (Inr s', w')"
    show "1 \<le> i_count s'" using returns [OF r] by simp
    show "episode_steps (i_count s') a s0 w0 = Some (s', w')" using returns [OF r] by simp
    show "length (observations_this_episode s') = i_count s'" if "get_obs a"
      using returns [OF r] that by simp
    show "length (actions_this_episode s') = i_count s'" if "get_actions a"
      using returns [OF r] that by simp
  next
    fix k s' w' assume e: "episode_steps k a s0 w0 = Some (s', w')"
    show "episode_while a s0 w0 = Some (Inr s', w')" using ends [OF e] by simp
    show "i_count s' = k" using ends [OF e] by simp
  qed
qed

text \<open>The simulator ends an episode at its third step: both logs have length 3.\<close>

theorem trajectory_log_length_witness:
  "\<exists>s' w'. episode_while (ex_args OBS_NOISE) ex_state ex_world = Some (Inr s', w') \<and>
      i_count s' = 3 \<and> length (observations_this_episode s') = 3 \<and>
      length (actions_this_episode s') = 3"
proof -
  obtain s' w' where
    e: "episode_steps (Suc (Suc (Suc 0))) (ex_args OBS_NOISE) ex_state ex_world = Some (s', w')"
    using ex_steps_obs by blast
  note t = trajectory_log_length [OF ex_init [of OBS_NOISE]]
  have r: "episode_while (ex_args OBS_NOISE) ex_state ex_world = Some (Inr s', w')"
    and i: "i_count s' = Suc (Suc (Suc 0))"
    using t [THEN conjunct2, rule_format, OF e] by simp_all
  have "length (observations_this_episode s') = i_count s' \<and>
        length (actions_this_episode s') = i_count s'"
    using t [THEN conjunct1, rule_format, OF r] by (simp add: ex_args_def)
  then show ?thesis using r i by (intro exI [of _ s'] exI [of _ w']) simp
qed

section \<open>Properties of the noise sweep\<close>

lemma enumerate_linspace_50:
  "List.enumerate 0 (linspace 0 2 50) = (0, 0) # List.enumerate 1 (tl (linspace 0 2 50))"
  by (simp add: linspace_def upt_conv_Cons map_tl)

lemma sweep_type_error:
  "checkpoints \<noteq> [] \<Longrightarrow>
     evaluate_increasing_noise checkpoints n ati mode w = Some (Inl TypeError, w)"
  by (cases checkpoints)
     (simp_all add: evaluate_increasing_noise_def Let_def enumerate_linspace_50
        py_get_def py_index_def rollout_episodes_call_def split: prod.splits)

text \<open>
  C8 says that the sweep records, for every policy, magnitude and episode, the
  episode's reward and whether it ended early. \<^verbatim>\<open>evaluate_increasing_noise\<close> calls
  \<^verbatim>\<open>rollout_episodes\<close> without the required \<^verbatim>\<open>action_callback\<close>, so with one
  checkpoint (or more) the first call raises TypeError: no episode runs and nothing is
  recorded.
\<close>

theorem sweep_raises_TypeError:
  "evaluate_increasing_noise [(ex_trainer, ex_env)] 1 [0] OBS_NOISE ex_world
     = Some (Inl TypeError, ex_world)"
  by (simp add: sweep_type_error)

section \<open>Properties of the aggregator\<close>

lemma percentile_le_last:
  assumes "sorted a" and "a \<noteq> []" and "0 \<le> q" and "q \<le> 100" and "percentile a q = Some v"
  shows "v \<le> last a"
proof -
  define n where "n = length a"
  define vi where "vi = (real n - 1) * (q / 100)"
  define p where "p = nat \<lfloor>vi\<rfloor>"
  define nx where "nx = min (p + 1) (n - 1)"
  define g where "g = vi - real p"
  have n1: "1 \<le> n" using assms(2) by (cases a) (simp_all add: n_def)
  have srt: "sort a = a" using assms(1) by (simp add: sorted_sort_id)
  have v: "v = a ! p + (a ! nx - a ! p) * g"
    using assms(2,5) by (simp add: percentile_def Let_def srt n_def vi_def p_def nx_def g_def)
  have vi0: "0 \<le> vi" using n1 assms(3) by (simp add: vi_def)
  have "vi \<le> (real n - 1) * 1"
    unfolding vi_def using n1 assms(3,4) by (intro mult_left_mono) simp_all
  then have vin: "vi \<le> real (n - 1)" using n1 by simp
  have pn: "p \<le> n - 1"
  proof -
    have "\<lfloor>vi\<rfloor> \<le> int (n - 1)" using vin by (simp add: floor_le_iff) 
    then show ?thesis by (simp add: p_def)
  qed
  have g0: "0 \<le> g" using vi0 by (simp add: g_def p_def)
  have g1: "g \<le> 1" using vi0 unfolding g_def p_def by (simp) linarith
  have pnx: "p \<le> nx" using pn by (simp add: nx_def)
  have nxn: "nx < n" using n1 by (simp add: nx_def)
  have le1: "a ! p \<le> a ! nx" using assms(1) pnx nxn by (simp add: sorted_nth_mono n_def)
  have le2: "a ! nx \<le> last a"
    using assms(1,2) nxn by (simp add: last_conv_nth sorted_nth_mono n_def)
  have "(a ! nx - a ! p) * g \<le> (a ! nx - a ! p) * 1"
    using le1 g1 by (intro mult_left_mono) simp_all
  then have "v \<le> a ! nx" by (simp add: v)
  then show ?thesis using le2 by simp
qed

lemma py_get_first: "vals \<noteq> [] \<Longrightarrow> py_get vals 0 = Inr (vals ! 0)"
  by (simp add: py_get_def py_index_def)

lemma py_get_last: "vals \<noteq> [] \<Longrightarrow> py_get vals (- 1) = Inr (last vals)"
  by (cases vals rule: rev_cases) (simp_all add: py_get_def py_index_def nth_append)

lemma percentile_example:
  "percentile [10, 20, 30, 40, 50] 25 = Some 20 \<and>
   percentile [10, 20, 30, 40, 50] 50 = Some 30 \<and>
   percentile [10, 20, 30, 40, 50] 75 = Some 40"
  by (simp add: percentile_def Let_def)

text \<open>
  C9. For a sorted, non-empty list \<open>vals\<close> of rewards with \<open>q1\<close> and \<open>q3\<close> its 25th and
  75th percentiles, \<open>adjacent_values vals q1 q3\<close> returns the lower bound
  \<open>clip (q1 - 1.5 * (q3 - q1)) vals[0] q1\<close> and the upper bound
  \<open>clip (q3 + 1.5 * (q3 - q1)) q3 vals[-1]\<close>; the lower bound is at most \<open>q1\<close> and the
  upper bound at least \<open>q3\<close>. The percentiles of the rewards 10, 20, 30, 40, 50 are
  20, 30 and 40. Floating-point numbers are read as reals.
\<close>

theorem adjacent_values_whiskers:
  assumes "sorted vals" and "vals \<noteq> []"
    and "percentile vals 25 = Some q1" and "percentile vals 75 = Some q3"
  shows "adjacent_values vals q1 q3 =
           Inr (clip (q1 - 1.5 * (q3 - q1)) (vals ! 0) q1,
                clip (q3 + 1.5 * (q3 - q1)) q3 (last vals)) \<and>
         clip (q1 - 1.5 * (q3 - q1)) (vals ! 0) q1 \<le> q1 \<and>
         q3 \<le> clip (q3 + 1.5 * (q3 - q1)) q3 (last vals) \<and>
         percentile [10, 20, 30, 40, 50] 25 = Some 20 \<and>
         percentile [10, 20, 30, 40, 50] 50 = Some 30 \<and>
         percentile [10, 20, 30, 40, 50] 75 = Some 40"
proof -
  have "q3 \<le> last vals" using percentile_le_last [OF assms(1,2) _ _ assms(4)] by simp
  then have "q3 \<le> clip (q3 + 1.5 * (q3 - q1)) q3 (last vals)" by (simp add: clip_def)
  moreover have "clip (q1 - 1.5 * (q3 - q1)) (vals ! 0) q1 \<le> q1" by (simp add: clip_def)
  moreover have "adjacent_values vals q1 q3 =
           Inr (clip (q1 - 1.5 * (q3 - q1)) (vals ! 0) q1,
                clip (q3 + 1.5 * (q3 - q1)) q3 (last vals))"
    using assms(2) by (simp add: adjacent_values_def Let_def py_get_first py_get_last mult.commute)
  ultimately show ?thesis using percentile_example by simp
qed

text \<open>The rewards 10, 20, 30, 40, 50: the whiskers are 10 and 50.\<close>

theorem adjacent_values_whiskers_witness:
  "adjacent_values [10, 20, 30, 40, 50] 20 40 = Inr (10, 50)"
proof -
  have "adjacent_values [10, 20, 30, 40, 50] 20 40 =
           Inr (clip (20 - 1.5 * (40 - 20)) ([10, 20, 30, 40, 50] ! 0) 20,
                clip (40 + 1.5 * (40 - 20)) 40 (last [10, 20, 30, 40, 50]))"
    using adjacent_values_whiskers [of "[10, 20, 30, 40, 50]" 20 40] percentile_example by simp
  then show ?thesis by (simp add: clip_def)
qed


end
